theory Spec2Isabelle
  imports Main
begin

section \<open>The CSS selector builder of \<open>05-objects-tasks.js\<close>\<close>

text \<open>
  The class \<open>Builder\<close> keeps two mutable fields: \<open>selectors\<close>, a JavaScript \<open>Map\<close> from
  the name of a fragment kind to the stored fragment (a string for \<open>element\<close>, \<open>id\<close> and
  \<open>pseudoElement\<close>, an array of strings for \<open>class\<close>, \<open>attribute\<close> and \<open>pseudoClass\<close>), and
  \<open>combineStorage\<close>, an array filled by \<open>combine\<close>. A \<open>Map\<close> iterates in insertion order and
  \<open>set\<close> on a key that is present keeps the key's position, so the map is an association
  list. The fields \<open>defaultOrder\<close>, \<open>occurErrorMessage\<close> and \<open>orderErrorMessage\<close> are
  written by the constructor only and are constants here.

  Arrays are modelled by value. In the source \<open>combine\<close> stores references to the arrays of
  its operands; no property below mutates an operand after it was combined. For the
  effect of \<open>stringify\<close> on the object, the last part of the model keeps the builder,
  its \<open>Map\<close> and its arrays as objects on a heap and relates them to the values used
  everywhere else.
\<close>

subsection \<open>Values, the insertion-ordered map and the array helpers\<close>

datatype jsval = Str string | Arr "string list"

primrec Map_has :: "('k \<times> 'v) list \<Rightarrow> 'k \<Rightarrow> bool" where
  "Map_has [] k = False"
| "Map_has (p # ps) k = (if fst p = k then True else Map_has ps k)"

primrec Map_get :: "('k \<times> 'v) list \<Rightarrow> 'k \<Rightarrow> 'v option" where
  "Map_get [] k = None"
| "Map_get (p # ps) k = (if fst p = k then Some (snd p) else Map_get ps k)"

primrec Map_set :: "('k \<times> 'v) list \<Rightarrow> 'k \<Rightarrow> 'v \<Rightarrow> ('k \<times> 'v) list" where
  "Map_set [] k v = [(k, v)]"
| "Map_set (p # ps) k v = (if fst p = k then (k, v) # ps else p # Map_set ps k v)"

definition Map_keys :: "('k \<times> 'v) list \<Rightarrow> 'k list" where
  "Map_keys m = map fst m"

definition Map_values :: "('k \<times> 'v) list \<Rightarrow> 'v list" where
  "Map_values m = map snd m"

text \<open>\<open>Array.prototype.includes\<close>, \<open>indexOf\<close> (\<open>-1\<close> when absent) and \<open>some\<close> with the
  index passed to the callback.\<close>

primrec Array_includes :: "'a list \<Rightarrow> 'a \<Rightarrow> bool" where
  "Array_includes [] x = False"
| "Array_includes (y # ys) x = (if y = x then True else Array_includes ys x)"

primrec indexOf_from :: "nat \<Rightarrow> 'a list \<Rightarrow> 'a \<Rightarrow> int" where
  "indexOf_from i [] x = - 1"
| "indexOf_from i (y # ys) x = (if y = x then int i else indexOf_from (Suc i) ys x)"

definition indexOf :: "'a list \<Rightarrow> 'a \<Rightarrow> int" where
  "indexOf xs x = indexOf_from 0 xs x"

primrec some_from :: "nat \<Rightarrow> ('a \<Rightarrow> nat \<Rightarrow> bool) \<Rightarrow> 'a list \<Rightarrow> bool" where
  "some_from i p [] = False"
| "some_from i p (x # xs) = (if p x i then True else some_from (Suc i) p xs)"

definition some :: "('a \<Rightarrow> nat \<Rightarrow> bool) \<Rightarrow> 'a list \<Rightarrow> bool" where
  "some p xs = some_from 0 p xs"

text \<open>\<open>flat()\<close> removes one level of nesting; \<open>join('')\<close> concatenates.\<close>

primrec flat1 :: "jsval \<Rightarrow> string list" where
  "flat1 (Str s) = [s]"
| "flat1 (Arr xs) = xs"

definition flat :: "jsval list \<Rightarrow> string list" where
  "flat xs = concat (map flat1 xs)"

definition join :: "string list \<Rightarrow> string" where
  "join xs = concat xs"

subsection \<open>The builder\<close>

record Builder =
  selectors :: "(string \<times> jsval) list"
  combineStorage :: "jsval list"

definition defaultOrder :: "string list" where
  "defaultOrder =
     [''element'', ''id'', ''class'', ''attribute'', ''pseudoClass'', ''pseudoElement'']"

definition new_Builder :: Builder where
  "new_Builder = \<lparr>selectors = [], combineStorage = []\<rparr>"

text \<open>
  \<open>OccurError\<close> is \<open>new Error(this.occurErrorMessage)\<close> and \<open>OrderError\<close> is
  \<open>new Error(this.orderErrorMessage)\<close>; \<open>TypeError\<close> is what JavaScript raises when
  \<open>push\<close> is called on a stored value that is not an array. A call either returns
  \<open>this\<close> or throws, and the object keeps the state it had when the exception left the
  method.
\<close>

datatype error = OccurError | OrderError | TypeError

definition occurErrorMessage :: string where
  "occurErrorMessage =
     ''Element, id and pseudo-element should not occur more then one time inside the selector''"

definition orderErrorMessage :: string where
  "orderErrorMessage =
     ''Selector parts should be arranged in the following order: element, id, class, attribute, pseudo-class, pseudo-element''"

datatype outcome = Returns Builder | Throws error Builder

text \<open>A chained call \<open>x.m(...)\<close>: the method runs when \<open>x\<close> was returned.\<close>

primrec andThen :: "outcome \<Rightarrow> (Builder \<Rightarrow> outcome) \<Rightarrow> outcome" where
  "andThen (Returns b) m = m b"
| "andThen (Throws e b) m = Throws e b"

definition Builder_isValidOrder :: "Builder \<Rightarrow> bool" where
  "Builder_isValidOrder this =
     (let keys = Map_keys (selectors this);
          currentOrder = filter (\<lambda>selector. Array_includes keys selector) defaultOrder;
          validOrder = some (\<lambda>selector i. int i > indexOf currentOrder selector) keys
      in \<not> validOrder)"

text \<open>The tail shared by the six fragment methods: the order check and \<open>return this\<close>.\<close>

definition checkOrder :: "Builder \<Rightarrow> outcome" where
  "checkOrder this =
     (if \<not> Builder_isValidOrder this then Throws OrderError this else Returns this)"

text \<open>\<open>element\<close>, \<open>id\<close> and \<open>pseudoElement\<close> have one body up to the key and the stored
  text.\<close>

definition setOnce :: "string \<Rightarrow> string \<Rightarrow> Builder \<Rightarrow> outcome" where
  "setOnce key text this =
     (if Map_has (selectors this) key then Throws OccurError this
      else checkOrder (this\<lparr>selectors := Map_set (selectors this) key (Str text)\<rparr>))"

text \<open>\<open>class\<close>, \<open>attr\<close> and \<open>pseudoClass\<close> have one body up to the key and the pushed
  text. \<open>get(key).push(text)\<close> changes the stored array in place, which leaves the key
  where it is.\<close>

definition pushTo :: "string \<Rightarrow> string \<Rightarrow> Builder \<Rightarrow> outcome" where
  "pushTo key text this =
     (let this1 = (if \<not> Map_has (selectors this) key
                   then this\<lparr>selectors := Map_set (selectors this) key (Arr [])\<rparr>
                   else this)
      in case Map_get (selectors this1) key of
           Some (Arr xs) \<Rightarrow>
             checkOrder (this1\<lparr>selectors := Map_set (selectors this1) key (Arr (xs @ [text]))\<rparr>)
         | Some (Str s) \<Rightarrow> Throws TypeError this1
         | None \<Rightarrow> Throws TypeError this1)"

definition Builder_element :: "string \<Rightarrow> Builder \<Rightarrow> outcome" where
  "Builder_element val this = setOnce ''element'' val this"

definition Builder_id :: "string \<Rightarrow> Builder \<Rightarrow> outcome" where
  "Builder_id val this = setOnce ''id'' (''#'' @ val) this"

definition Builder_class :: "string \<Rightarrow> Builder \<Rightarrow> outcome" where
  "Builder_class val this = pushTo ''class'' (''.'' @ val) this"

definition Builder_attr :: "string \<Rightarrow> Builder \<Rightarrow> outcome" where
  "Builder_attr val this = pushTo ''attribute'' (''['' @ val @ '']'') this"

definition Builder_pseudoClass :: "string \<Rightarrow> Builder \<Rightarrow> outcome" where
  "Builder_pseudoClass val this = pushTo ''pseudoClass'' ('':'' @ val) this"

definition Builder_pseudoElement :: "string \<Rightarrow> Builder \<Rightarrow> outcome" where
  "Builder_pseudoElement val this = setOnce ''pseudoElement'' (''::'' @ val) this"

text \<open>The arguments of \<open>push\<close> are read before the array grows, so the operands may be
  \<open>this\<close> itself.\<close>

definition Builder_combine :: "Builder \<Rightarrow> string \<Rightarrow> Builder \<Rightarrow> Builder \<Rightarrow> Builder" where
  "Builder_combine selector1 combinator selector2 this =
     this\<lparr>combineStorage := combineStorage this @
        (Map_values (selectors selector1) @
         [Str ('' '' @ combinator @ '' '')] @
         Map_values (selectors selector2) @
         combineStorage selector2)\<rparr>"

definition Builder_stringify :: "Builder \<Rightarrow> string" where
  "Builder_stringify this =
     (if length (combineStorage this) > 0 then join (flat (combineStorage this))
      else join (flat (Map_values (selectors this))))"

subsection \<open>The facade \<open>cssSelectorBuilder\<close>\<close>

definition css_element :: "string \<Rightarrow> outcome" where
  "css_element val = Builder_element val new_Builder"

definition css_id :: "string \<Rightarrow> outcome" where
  "css_id val = Builder_id val new_Builder"

definition css_class :: "string \<Rightarrow> outcome" where
  "css_class val = Builder_class val new_Builder"

definition css_attr :: "string \<Rightarrow> outcome" where
  "css_attr val = Builder_attr val new_Builder"

definition css_pseudoClass :: "string \<Rightarrow> outcome" where
  "css_pseudoClass val = Builder_pseudoClass val new_Builder"

definition css_pseudoElement :: "string \<Rightarrow> outcome" where
  "css_pseudoElement val = Builder_pseudoElement val new_Builder"

definition css_combine :: "Builder \<Rightarrow> string \<Rightarrow> Builder \<Rightarrow> Builder" where
  "css_combine selector1 combinator selector2 =
     Builder_combine selector1 combinator selector2 new_Builder"

text \<open>The same method called with each value of a list, one call after the other.\<close>

primrec callEach :: "(string \<Rightarrow> Builder \<Rightarrow> outcome) \<Rightarrow> string list \<Rightarrow> Builder \<Rightarrow> outcome" where
  "callEach m [] this = Returns this"
| "callEach m (v # vs) this = andThen (m v this) (callEach m vs)"

subsection \<open>Sequences of calls on one builder\<close>

text \<open>
  A call of one of the seven methods of \<open>Builder\<close>, and the state of the object after a
  call, whether the call returned or threw. \<open>performAll\<close> makes the calls of a list on
  one object, one after the other; after a call that threw, the caller that caught the
  exception goes on with the object as the throw left it. A chain that never throws is
  the case in which every call returns.
\<close>

datatype call =
    Element string | Id string | Class string | Attr string | PseudoClass string
  | PseudoElement string | Combine Builder string Builder

primrec perform :: "call \<Rightarrow> Builder \<Rightarrow> outcome" where
  "perform (Element v) this = Builder_element v this"
| "perform (Id v) this = Builder_id v this"
| "perform (Class v) this = Builder_class v this"
| "perform (Attr v) this = Builder_attr v this"
| "perform (PseudoClass v) this = Builder_pseudoClass v this"
| "perform (PseudoElement v) this = Builder_pseudoElement v this"
| "perform (Combine selector1 combinator selector2) this =
     Returns (Builder_combine selector1 combinator selector2 this)"

primrec stateOf :: "outcome \<Rightarrow> Builder" where
  "stateOf (Returns b) = b"
| "stateOf (Throws e b) = b"

primrec performAll :: "call list \<Rightarrow> Builder \<Rightarrow> Builder" where
  "performAll [] this = this"
| "performAll (c # cs) this = performAll cs (stateOf (perform c this))"

text \<open>The key of \<open>selectors\<close> that the method of a call writes; \<open>combine\<close> writes
  none.\<close>

primrec keyWritten :: "call \<Rightarrow> string set" where
  "keyWritten (Element v) = {''element''}"
| "keyWritten (Id v) = {''id''}"
| "keyWritten (Class v) = {''class''}"
| "keyWritten (Attr v) = {''attribute''}"
| "keyWritten (PseudoClass v) = {''pseudoClass''}"
| "keyWritten (PseudoElement v) = {''pseudoElement''}"
| "keyWritten (Combine s1 c s2) = {}"

subsection \<open>\<open>stringify\<close> on a heap of objects\<close>

text \<open>
  To say what a call of \<open>stringify\<close> does to the object, the builder, its \<open>Map\<close> and
  its arrays are objects on a heap, and an array or a \<open>Map\<close> holds strings and
  references. An address is an index of the heap; a new object goes to the end. The
  operations are those of the body of \<open>stringify\<close>: \<open>length\<close> reads, \<open>flat()\<close>, the
  spread of \<open>values()\<close> build a new array, \<open>join('')\<close> builds a string. \<open>join\<close> of an
  array that holds a reference would turn the referenced object into text; this is
  not modelled and is \<open>None\<close>, as is every use of an address that holds no object of
  the expected class.
\<close>

type_synonym addr = nat

datatype hval = HStr string | HRef addr

datatype hobj =
    HArray "hval list"
  | HMap "(string \<times> hval) list"
  | HBuilder addr addr

type_synonym heap = "hobj list"

definition deref :: "heap \<Rightarrow> addr \<Rightarrow> hobj option" where
  "deref h a = (if a < length h then Some (h ! a) else None)"

definition alloc :: "hobj \<Rightarrow> heap \<Rightarrow> addr \<times> heap" where
  "alloc obj h = (length h, h @ [obj])"

definition heap_length :: "addr \<Rightarrow> heap \<Rightarrow> nat option" where
  "heap_length a h = (case deref h a of Some (HArray xs) \<Rightarrow> Some (length xs) | _ \<Rightarrow> None)"

definition heap_flat1 :: "heap \<Rightarrow> hval \<Rightarrow> hval list" where
  "heap_flat1 h e =
     (case e of
        HStr s \<Rightarrow> [e]
      | HRef r \<Rightarrow> (case deref h r of Some (HArray ys) \<Rightarrow> ys | _ \<Rightarrow> [e]))"

definition heap_flat :: "addr \<Rightarrow> heap \<Rightarrow> (addr \<times> heap) option" where
  "heap_flat a h =
     (case deref h a of
        Some (HArray xs) \<Rightarrow> Some (alloc (HArray (concat (map (heap_flat1 h) xs))) h)
      | _ \<Rightarrow> None)"

primrec strings_of :: "hval list \<Rightarrow> string list option" where
  "strings_of [] = Some []"
| "strings_of (e # es) =
     (case e of HStr s \<Rightarrow> map_option ((#) s) (strings_of es) | HRef r \<Rightarrow> None)"

definition heap_join :: "addr \<Rightarrow> heap \<Rightarrow> string option" where
  "heap_join a h =
     (case deref h a of
        Some (HArray xs) \<Rightarrow> map_option concat (strings_of xs)
      | _ \<Rightarrow> None)"

definition heap_values :: "addr \<Rightarrow> heap \<Rightarrow> (addr \<times> heap) option" where
  "heap_values a h =
     (case deref h a of
        Some (HMap m) \<Rightarrow> Some (alloc (HArray (map snd m)) h)
      | _ \<Rightarrow> None)"

text \<open>The body of \<open>stringify\<close>: \<open>this.combineStorage.length > 0\<close>, then either
  \<open>this.combineStorage.flat().join('')\<close> or \<open>[...this.selectors.values()].flat().join('')\<close>.
  The result is the string and the heap after the call.\<close>

definition stringify_on_heap :: "addr \<Rightarrow> heap \<Rightarrow> (string \<times> heap) option" where
  "stringify_on_heap this h =
     (case deref h this of
        Some (HBuilder sel cs) \<Rightarrow>
          (case heap_length cs h of
             None \<Rightarrow> None
           | Some n \<Rightarrow>
               if n > 0 then
                 (case heap_flat cs h of
                    None \<Rightarrow> None
                  | Some (f, h1) \<Rightarrow> map_option (\<lambda>s. (s, h1)) (heap_join f h1))
               else
                 (case heap_values sel h of
                    None \<Rightarrow> None
                  | Some (v, h1) \<Rightarrow>
                      (case heap_flat v h1 of
                         None \<Rightarrow> None
                       | Some (f, h2) \<Rightarrow> map_option (\<lambda>s. (s, h2)) (heap_join f h2))))
      | _ \<Rightarrow> None)"

text \<open>The builder that the objects reachable from an address stand for, in the
  representation by value of the sections above.\<close>

definition absVal :: "heap \<Rightarrow> hval \<Rightarrow> jsval option" where
  "absVal h e =
     (case e of
        HStr s \<Rightarrow> Some (Str s)
      | HRef r \<Rightarrow>
          (case deref h r of Some (HArray ys) \<Rightarrow> map_option Arr (strings_of ys) | _ \<Rightarrow> None))"

primrec absVals :: "heap \<Rightarrow> hval list \<Rightarrow> jsval list option" where
  "absVals h [] = Some []"
| "absVals h (e # es) =
     (case absVal h e of None \<Rightarrow> None | Some v \<Rightarrow> map_option ((#) v) (absVals h es))"

primrec absEntries :: "heap \<Rightarrow> (string \<times> hval) list \<Rightarrow> (string \<times> jsval) list option" where
  "absEntries h [] = Some []"
| "absEntries h (p # ps) =
     (case absVal h (snd p) of
        None \<Rightarrow> None
      | Some v \<Rightarrow> map_option ((#) (fst p, v)) (absEntries h ps))"

definition absBuilder :: "heap \<Rightarrow> addr \<Rightarrow> Builder option" where
  "absBuilder h this =
     (case deref h this of
        Some (HBuilder sel cs) \<Rightarrow>
          (case deref h sel of
             Some (HMap m) \<Rightarrow>
               (case deref h cs of
                  Some (HArray xs) \<Rightarrow>
                    (case absEntries h m of
                       None \<Rightarrow> None
                     | Some m' \<Rightarrow>
                         (case absVals h xs of
                            None \<Rightarrow> None
                          | Some xs' \<Rightarrow> Some \<lparr>selectors = m', combineStorage = xs'\<rparr>))
                | _ \<Rightarrow> None)
           | _ \<Rightarrow> None)
      | _ \<Rightarrow> None)"

section \<open>Properties\<close>

subsection \<open>The map and the array helpers\<close>

lemma Map_has_iff: "Map_has m k \<longleftrightarrow> k \<in> set (Map_keys m)"
  by (induction m) (auto simp: Map_keys_def)

lemma Map_get_set: "Map_get (Map_set m k v) k' = (if k' = k then Some v else Map_get m k')"
  by (induction m) auto

lemma Array_includes_iff: "Array_includes xs x \<longleftrightarrow> x \<in> set xs"
  by (induction xs) auto

lemma some_from_iff: "some_from i p xs \<longleftrightarrow> (\<exists>j<length xs. p (xs ! j) (i + j))"
proof (induction xs arbitrary: i)
  case Nil
  then show ?case by simp
next
  case (Cons x xs)
  show ?case
    by (auto simp: Cons.IH less_Suc_eq_0_disj)
qed

lemma indexOf_from_absent: "x \<notin> set xs \<Longrightarrow> indexOf_from i xs x = - 1"
  by (induction xs arbitrary: i) auto

lemma indexOf_from_present:
  "x \<in> set xs \<Longrightarrow> \<exists>j<length xs. xs ! j = x \<and> indexOf_from i xs x = int (i + j)"
proof (induction xs arbitrary: i)
  case Nil
  then show ?case by simp
next
  case (Cons y ys)
  show ?case
  proof (cases "y = x")
    case True
    then show ?thesis by auto
  next
    case False
    with Cons.prems have "x \<in> set ys" by simp
    from Cons.IH [OF this, of "Suc i"] obtain j where "j < length ys" "ys ! j = x" "indexOf_from (Suc i) ys x = int (Suc i + j)" by blast
    with False show ?thesis by (intro exI [of _ "Suc j"]) simp
  qed
qed

lemma indexOf_from_nth:
  "distinct xs \<Longrightarrow> j < length xs \<Longrightarrow> indexOf_from i xs (xs ! j) = int (i + j)"
proof (induction xs arbitrary: i j)
  case Nil
  then show ?case by simp
next
  case (Cons y ys)
  then show ?case by (cases j) auto
qed

lemma indexOf_absent: "x \<notin> set xs \<Longrightarrow> indexOf xs x = - 1"
  by (simp add: indexOf_def indexOf_from_absent)

lemma indexOf_nth: "distinct xs \<Longrightarrow> j < length xs \<Longrightarrow> indexOf xs (xs ! j) = int j"
  by (simp add: indexOf_def indexOf_from_nth)

lemma indexOf_present:
  "x \<in> set xs \<Longrightarrow> \<exists>j<length xs. xs ! j = x \<and> indexOf xs x = int j"
  using indexOf_from_present [of x xs 0] by (simp add: indexOf_def)

lemma some_iff: "some p xs \<longleftrightarrow> (\<exists>j<length xs. p (xs ! j) j)"
  by (simp add: some_def some_from_iff)

lemma ordered_eq:
  assumes d: "distinct cur" and sub: "set cur \<subseteq> set ks"
    and le: "\<forall>j<length ks. int j \<le> indexOf cur (ks ! j)"
  shows "ks = cur"
proof -
  define n where "n = length ks"
  define f where "f j = nat (indexOf cur (ks ! j))" for j
  have mem: "ks ! j \<in> set cur" if "j < n" for j
  proof (rule ccontr)
    assume "ks ! j \<notin> set cur"
    then have "indexOf cur (ks ! j) = - 1" by (rule indexOf_absent)
    with le that show False by (auto simp: n_def)
  qed
  have f: "f j < length cur \<and> cur ! f j = ks ! j \<and> j \<le> f j" if "j < n" for j
  proof -
    from indexOf_present [OF mem [OF that]] obtain k
      where k: "k < length cur" "cur ! k = ks ! j" "indexOf cur (ks ! j) = int k" by blast
    from le that k(3) have "j \<le> k" by (auto simp: n_def)
    with k show ?thesis by (simp add: f_def)
  qed
  have "n \<le> length cur"
  proof (cases n)
    case 0 then show ?thesis by simp
  next
    case (Suc m)
    then have "m < n" by simp
    from f [OF this] Suc show ?thesis by simp
  qed
  moreover have "length cur = card (set cur)" using d by (simp add: distinct_card)
  moreover have "card (set cur) \<le> card (set ks)" using sub by (simp add: card_mono)
  moreover have "card (set ks) \<le> n" by (simp add: n_def card_length)
  ultimately have len: "length cur = n" and cd: "card (set ks) = length ks"
    by (simp_all add: n_def)
  have dk: "distinct ks" using cd by (rule card_distinct)
  have inj: "inj_on f {..<n}"
  proof (rule inj_onI)
    fix a b assume ab: "a \<in> {..<n}" "b \<in> {..<n}" "f a = f b"
    then have "ks ! a = ks ! b" using f [of a] f [of b] by auto
    with dk ab show "a = b" by (simp add: nth_eq_iff_index_eq n_def)
  qed
  have "f ` {..<n} \<subseteq> {..<n}" using f len by auto
  moreover have "card (f ` {..<n}) = card {..<n}" using inj by (rule card_image)
  ultimately have img: "f ` {..<n} = {..<n}" by (simp add: card_subset_eq)
  have "sum f {..<n} = sum (\<lambda>j. j) (f ` {..<n})"
    using inj by (simp add: sum.reindex)
  then have s: "sum (\<lambda>j. j) {..<n} = sum f {..<n}" by (simp add: img)
  have fid: "f j = j" if "j < n" for j
  proof -
    have "(\<lambda>j. j) j = f j"
      by (rule sum_mono_inv [OF s]) (use f that in auto)
    then show ?thesis by simp
  qed
  show ?thesis
  proof (rule nth_equalityI)
    show "length ks = length cur" by (simp add: len n_def)
  next
    fix i assume "i < length ks"
    then have "i < n" by (simp add: n_def)
    from f [OF this] fid [OF this] show "ks ! i = cur ! i" by simp
  qed
qed

lemma order_check_iff:
  assumes "distinct d"
  shows "(\<not> some (\<lambda>selector i. int i > indexOf (filter (\<lambda>s. Array_includes ks s) d) selector) ks)
         \<longleftrightarrow> ks = filter (\<lambda>s. Array_includes ks s) d"
    (is "?chk \<longleftrightarrow> ks = ?cur")
proof
  assume ?chk
  then have le: "\<forall>j<length ks. int j \<le> indexOf ?cur (ks ! j)"
    unfolding some_iff by (meson not_less)
  have "distinct ?cur" using assms by simp
  moreover have "set ?cur \<subseteq> set ks" by (auto simp: Array_includes_iff)
  ultimately show "ks = ?cur" using le by (rule ordered_eq)
next
  assume eq: "ks = ?cur"
  have dc: "distinct ?cur" using assms by simp
  have "indexOf ?cur (ks ! j) = int j" if "j < length ks" for j
  proof -
    from that eq have "j < length ?cur" by simp
    from indexOf_nth [OF dc this] eq show ?thesis by simp
  qed
  then show ?chk by (auto simp: some_iff)
qed

lemma distinct_defaultOrder: "distinct defaultOrder"
  by (simp add: defaultOrder_def)

lemma isValidOrder_iff:
  "Builder_isValidOrder this \<longleftrightarrow>
     Map_keys (selectors this) =
       filter (\<lambda>k. k \<in> set (Map_keys (selectors this))) defaultOrder"
  using order_check_iff [OF distinct_defaultOrder, of "Map_keys (selectors this)"]
  by (simp add: Builder_isValidOrder_def Let_def Array_includes_iff)

subsection \<open>The order check\<close>

text \<open>
  C2. In every state of a builder, \<open>isValidOrder\<close> returns true exactly when the keys of
  \<open>selectors\<close>, in insertion order, are \<open>defaultOrder\<close> restricted to the keys that are
  present.
\<close>

theorem C2_isValidOrder_iff_filtered_defaultOrder:
  "Builder_isValidOrder this \<longleftrightarrow>
     Map_keys (selectors this) =
       filter (\<lambda>k. k \<in> set (Map_keys (selectors this))) defaultOrder"
  by (rule isValidOrder_iff)

subsection \<open>The fragment methods\<close>

lemma Map_set_absent: "k \<notin> set (Map_keys m) \<Longrightarrow> Map_set m k v = m @ [(k, v)]"
  by (induction m) (auto simp: Map_keys_def)

lemma Map_set_split:
  "k \<notin> set (Map_keys pre) \<Longrightarrow> Map_set (pre @ (k, x) # post) k v = pre @ (k, v) # post"
  by (induction pre) (auto simp: Map_keys_def)

lemma Map_get_split:
  "k \<notin> set (Map_keys pre) \<Longrightarrow> Map_get (pre @ (k, x) # post) k = Some x"
  by (induction pre) (auto simp: Map_keys_def)

lemma Map_get_SomeD:
  "Map_get m k = Some x \<Longrightarrow> \<exists>pre post. m = pre @ (k, x) # post \<and> k \<notin> set (Map_keys pre)"
proof (induction m)
  case Nil
  then show ?case by simp
next
  case (Cons p ps)
  show ?case
  proof (cases "fst p = k")
    case True
    with Cons.prems have "p # ps = [] @ (k, x) # ps" by (cases p) simp
    then show ?thesis unfolding Map_keys_def by (metis list.set(1) list.simps(8) empty_iff)
  next
    case False
    with Cons.prems have "Map_get ps k = Some x" by simp
    from Cons.IH [OF this] obtain pre post
      where "ps = pre @ (k, x) # post" "k \<notin> set (Map_keys pre)" by blast
    with False have "p # ps = (p # pre) @ (k, x) # post \<and> k \<notin> set (Map_keys (p # pre))"
      by (auto simp: Map_keys_def)
    then show ?thesis by blast
  qed
qed

lemma isValidOrder_keys_cong:
  "Map_keys (selectors a) = Map_keys (selectors b) \<Longrightarrow>
     Builder_isValidOrder a = Builder_isValidOrder b"
  by (simp add: Builder_isValidOrder_def)

lemma checkOrder_Throws:
  "checkOrder b = Throws e b' \<longleftrightarrow> \<not> Builder_isValidOrder b \<and> e = OrderError \<and> b' = b"
  by (auto simp: checkOrder_def)

lemma pushTo_absent:
  assumes "k \<notin> set (Map_keys (selectors b))"
  shows "pushTo k t b = checkOrder (b\<lparr>selectors := selectors b @ [(k, Arr [t])]\<rparr>)"
proof -
  have "Map_set (selectors b) k (Arr []) = selectors b @ [(k, Arr [])]"
    using assms by (rule Map_set_absent)
  moreover have "Map_get (selectors b @ [(k, Arr [])]) k = Some (Arr [])"
    using assms Map_get_split [of k "selectors b" "Arr []" "[]"] by simp
  moreover have "Map_set (selectors b @ [(k, Arr [])]) k (Arr [t]) = selectors b @ [(k, Arr [t])]"
    using assms Map_set_split [of k "selectors b" "Arr []" "[]" "Arr [t]"] by simp
  ultimately show ?thesis using assms by (simp add: pushTo_def Map_has_iff)
qed

lemma pushTo_present:
  assumes "selectors b = pre @ (k, Arr old) # post" and "k \<notin> set (Map_keys pre)"
  shows "pushTo k t b = checkOrder (b\<lparr>selectors := pre @ (k, Arr (old @ [t])) # post\<rparr>)"
proof -
  have "k \<in> set (Map_keys (selectors b))" using assms(1) by (simp add: Map_keys_def)
  then show ?thesis
    using assms by (simp add: pushTo_def Map_has_iff Map_get_split Map_set_split)
qed



lemma callEach_pushTo_returns:
  assumes "Builder_isValidOrder b" and "Map_get (selectors b) k = Some (Arr old)"
  shows "\<exists>b'. callEach (\<lambda>v. pushTo k (f v)) vs b = Returns b'"
  using assms
proof (induction vs arbitrary: b old)
  case Nil
  then show ?case by simp
next
  case (Cons v vs)
  from Map_get_SomeD [OF Cons.prems(2)] obtain pre post
    where sel: "selectors b = pre @ (k, Arr old) # post" and k: "k \<notin> set (Map_keys pre)"
    by blast
  let ?b1 = "b\<lparr>selectors := pre @ (k, Arr (old @ [f v])) # post\<rparr>"
  have step: "pushTo k (f v) b = checkOrder ?b1" using sel k by (rule pushTo_present)
  have "Map_keys (selectors ?b1) = Map_keys (selectors b)" by (simp add: sel Map_keys_def)
  then have valid: "Builder_isValidOrder ?b1"
    using Cons.prems(1) isValidOrder_keys_cong by blast
  have "Map_get (selectors ?b1) k = Some (Arr (old @ [f v]))"
    using k by (simp add: Map_get_split)
  from Cons.IH [OF valid this] show ?case by (simp add: step checkOrder_def valid)
qed

lemma valid_append_class:
  assumes "Builder_isValidOrder b"
    and "''class'' \<notin> set (Map_keys (selectors b))"
    and "''attribute'' \<notin> set (Map_keys (selectors b))"
    and "''pseudoClass'' \<notin> set (Map_keys (selectors b))"
    and "''pseudoElement'' \<notin> set (Map_keys (selectors b))"
  shows "Builder_isValidOrder (b\<lparr>selectors := selectors b @ [(''class'', v)]\<rparr>)"
proof -
  define ks where "ks = Map_keys (selectors b)"
  have ks: "ks = filter (\<lambda>k. k \<in> set ks) defaultOrder"
    using assms(1) by (simp add: isValidOrder_iff ks_def)
  have "ks @ [''class''] = filter (\<lambda>k. k \<in> set (ks @ [''class''])) defaultOrder"
    using assms(2-5) ks unfolding ks_def [symmetric] defaultOrder_def
    by (auto split: if_splits)
  moreover have "Builder_isValidOrder (b\<lparr>selectors := selectors b @ [(''class'', v)]\<rparr>) \<longleftrightarrow>
      ks @ [''class''] = filter (\<lambda>k. k \<in> set (ks @ [''class''])) defaultOrder"
    by (simp add: isValidOrder_iff ks_def Map_keys_def)
  ultimately show ?thesis by blast
qed

lemma invalid_id_after_class:
  assumes "''class'' \<in> set (Map_keys (selectors b))"
    and "''id'' \<notin> set (Map_keys (selectors b))"
  shows "\<not> Builder_isValidOrder (b\<lparr>selectors := selectors b @ [(''id'', v)]\<rparr>)"
proof
  define ks where "ks = Map_keys (selectors b)"
  define P where "P = (\<lambda>k. k \<in> set (ks @ [''id'']))"
  let ?late = "[''class'', ''attribute'', ''pseudoClass'', ''pseudoElement'']"
  assume "Builder_isValidOrder (b\<lparr>selectors := selectors b @ [(''id'', v)]\<rparr>)"
  moreover have "Builder_isValidOrder (b\<lparr>selectors := selectors b @ [(''id'', v)]\<rparr>) \<longleftrightarrow>
      ks @ [''id''] = filter (\<lambda>k. k \<in> set (ks @ [''id''])) defaultOrder"
    by (simp add: isValidOrder_iff ks_def Map_keys_def)
  ultimately have "ks @ [''id''] = filter (\<lambda>k. k \<in> set (ks @ [''id''])) defaultOrder"
    by blast
  then have eq: "ks @ [''id''] = filter P defaultOrder" by (simp only: P_def)
  have "P ''class''" using assms(1) by (simp add: P_def ks_def)
  then have ne: "filter P ?late \<noteq> []" by simp
  have split: "filter P defaultOrder = filter P [''element'', ''id''] @ filter P ?late"
    unfolding defaultOrder_def by simp
  from eq have "last (ks @ [''id'']) = last (filter P defaultOrder)" by (rule arg_cong)
  moreover have "last (filter P [''element'', ''id''] @ filter P ?late) = last (filter P ?late)"
    using ne by (rule last_appendR)
  ultimately have "''id'' = last (filter P ?late)"
    unfolding split by (simp only: last_snoc)
  moreover have "last (filter P ?late) \<in> set (filter P ?late)" using ne by (rule last_in_set)
  ultimately have "''id'' \<in> set (filter P ?late)" by simp
  then have "''id'' \<in> set ?late" by (simp only: set_filter) blast
  then show False by simp
qed

lemmas method_defs =
  Builder_element_def Builder_id_def Builder_class_def Builder_attr_def
  Builder_pseudoClass_def Builder_pseudoElement_def
  css_element_def css_id_def css_class_def css_attr_def css_pseudoClass_def
  css_pseudoElement_def

lemmas run_defs =
  method_defs setOnce_def pushTo_def checkOrder_def new_Builder_def
  isValidOrder_iff Map_keys_def defaultOrder_def

subsection \<open>Rendering a chain in canonical order\<close>

lemma canonical_chain:
  "andThen (andThen (andThen (andThen (andThen (css_element e) (Builder_id i))
      (Builder_class c)) (Builder_attr a)) (Builder_pseudoClass pc)) (Builder_pseudoElement pe) =
   Returns \<lparr>selectors =
      [(''element'', Str e), (''id'', Str (''#'' @ i)), (''class'', Arr [''.'' @ c]),
       (''attribute'', Arr [''['' @ a @ '']'']), (''pseudoClass'', Arr ['':'' @ pc]),
       (''pseudoElement'', Str (''::'' @ pe))],
     combineStorage = []\<rparr>"
  by (simp add: run_defs)

text \<open>
  C1. A chain that starts at the facade and calls \<open>element\<close>, \<open>id\<close>, \<open>class\<close>, \<open>attr\<close>,
  \<open>pseudoClass\<close> and \<open>pseudoElement\<close> once each, in this order, returns a builder, and
  \<open>stringify\<close> of that builder is the element text, then \<open>#\<close> and the id, \<open>.\<close> and the
  class, the attribute between \<open>[\<close> and \<open>]\<close>, \<open>:\<close> and the pseudo-class, \<open>::\<close> and the
  pseudo-element, with nothing in between. The chain of the example renders as
  \<open>a#x.c[href$=".png"]:focus::before\<close>.
\<close>

theorem C1_canonical_chain_stringify:
  \<open>(\<exists>b. andThen (andThen (andThen (andThen (andThen (css_element e) (Builder_id i))
      (Builder_class c)) (Builder_attr a)) (Builder_pseudoClass pc)) (Builder_pseudoElement pe) =
        Returns b \<and>
      Builder_stringify b =
        e @ ''#'' @ i @ ''.'' @ c @ ''['' @ a @ '']'' @ '':'' @ pc @ ''::'' @ pe) \<and>
   (\<exists>b. andThen (andThen (andThen (andThen (andThen (css_element ''a'') (Builder_id ''x''))
      (Builder_class ''c'')) (Builder_attr ''href$=".png"''))
      (Builder_pseudoClass ''focus'')) (Builder_pseudoElement ''before'') = Returns b \<and>
      Builder_stringify b =
        ''a#x.c[href$=".png"]:focus::before'')\<close>
  by (simp add: canonical_chain Builder_stringify_def Map_values_def flat_def join_def)

subsection \<open>The duplicate-occurrence error\<close>

lemma setOnce_OccurError_iff:
  "(\<exists>b'. setOnce k t b = Throws OccurError b') \<longleftrightarrow> k \<in> set (Map_keys (selectors b))"
  by (simp add: setOnce_def checkOrder_def Map_has_iff)

lemma setOnce_OccurError_state: "setOnce k t b = Throws OccurError b' \<Longrightarrow> b' = b"
  by (simp add: setOnce_def checkOrder_def split: if_splits)

lemma setOnce_absent:
  "k \<notin> set (Map_keys (selectors b)) \<Longrightarrow>
     setOnce k t b = checkOrder (b\<lparr>selectors := selectors b @ [(k, Str t)]\<rparr>)"
  by (simp add: setOnce_def Map_has_iff Map_set_absent)

lemma keys_Map_set: "set (Map_keys (Map_set m k v)) = insert k (set (Map_keys m))"
  by (induction m) (auto simp: Map_keys_def)

lemma stateOf_checkOrder: "stateOf (checkOrder b) = b"
  by (simp add: checkOrder_def)

lemma keys_setOnce:
  "set (Map_keys (selectors (stateOf (setOnce k t b)))) = insert k (set (Map_keys (selectors b)))"
  by (auto simp: setOnce_def stateOf_checkOrder keys_Map_set Map_has_iff)

lemma keys_pushTo:
  "set (Map_keys (selectors (stateOf (pushTo k t b)))) = insert k (set (Map_keys (selectors b)))"
  by (auto simp: pushTo_def Let_def stateOf_checkOrder keys_Map_set Map_has_iff
      split: option.splits jsval.splits)

lemma keys_perform:
  "set (Map_keys (selectors (stateOf (perform c b)))) =
     set (Map_keys (selectors b)) \<union> keyWritten c"
  by (cases c) (simp_all add: method_defs keys_setOnce keys_pushTo Builder_combine_def)

lemma keys_performAll:
  "set (Map_keys (selectors (performAll cs b))) =
     set (Map_keys (selectors b)) \<union> \<Union> (keyWritten ` set cs)"
  by (induction cs arbitrary: b) (auto simp: keys_perform)

lemma keyWritten_iff:
  "''element'' \<in> keyWritten c \<longleftrightarrow> (\<exists>w. c = Element w)"
  "''id'' \<in> keyWritten c \<longleftrightarrow> (\<exists>w. c = Id w)"
  "''pseudoElement'' \<in> keyWritten c \<longleftrightarrow> (\<exists>w. c = PseudoElement w)"
  by (cases c; simp)+

lemma element_written: "''element'' \<in> \<Union> (keyWritten ` set cs) \<longleftrightarrow> (\<exists>w. Element w \<in> set cs)"
  by (auto simp: keyWritten_iff)

lemma id_written: "''id'' \<in> \<Union> (keyWritten ` set cs) \<longleftrightarrow> (\<exists>w. Id w \<in> set cs)"
  by (auto simp: keyWritten_iff)

lemma pseudoElement_written:
  "''pseudoElement'' \<in> \<Union> (keyWritten ` set cs) \<longleftrightarrow> (\<exists>w. PseudoElement w \<in> set cs)"
  by (auto simp: keyWritten_iff)

text \<open>
  C3. In every state, \<open>element\<close>, \<open>id\<close> and \<open>pseudoElement\<close> throw the occurrence error
  exactly when the key of their own kind is already in \<open>selectors\<close>; on the fresh
  builder of the facade none of them throws it. After any calls on a fresh builder,
  each of the three throws the occurrence error exactly when a call of the same method
  is among them: the first call of a kind never throws it, whatever other methods
  were called before, and every later call of that kind does.
\<close>

theorem C3_duplicate_error_iff_present:
  "((\<exists>b'. Builder_element v this = Throws OccurError b') \<longleftrightarrow>
      ''element'' \<in> set (Map_keys (selectors this))) \<and>
   ((\<exists>b'. Builder_id v this = Throws OccurError b') \<longleftrightarrow>
      ''id'' \<in> set (Map_keys (selectors this))) \<and>
   ((\<exists>b'. Builder_pseudoElement v this = Throws OccurError b') \<longleftrightarrow>
      ''pseudoElement'' \<in> set (Map_keys (selectors this))) \<and>
   \<not> (\<exists>b'. css_element v = Throws OccurError b') \<and>
   \<not> (\<exists>b'. css_id v = Throws OccurError b') \<and>
   \<not> (\<exists>b'. css_pseudoElement v = Throws OccurError b') \<and>
   ((\<exists>b'. Builder_element v (performAll cs new_Builder) = Throws OccurError b') \<longleftrightarrow>
      (\<exists>w. Element w \<in> set cs)) \<and>
   ((\<exists>b'. Builder_id v (performAll cs new_Builder) = Throws OccurError b') \<longleftrightarrow>
      (\<exists>w. Id w \<in> set cs)) \<and>
   ((\<exists>b'. Builder_pseudoElement v (performAll cs new_Builder) = Throws OccurError b') \<longleftrightarrow>
      (\<exists>w. PseudoElement w \<in> set cs))"
proof -
  have empty: "set (Map_keys (selectors new_Builder)) = {}"
    by (simp add: new_Builder_def Map_keys_def)
  show ?thesis
    unfolding method_defs
    by (simp only: setOnce_OccurError_iff keys_performAll empty Un_empty_left
        element_written id_written pseudoElement_written) simp
qed

subsection \<open>\<open>id\<close> after \<open>class\<close>, and \<open>class\<close> called in a row\<close>

text \<open>
  C4, where the statement for every chain fails. In \<open>id('a').class('b').id('c')\<close> the
  second \<open>id\<close> comes after \<open>class\<close> and throws the occurrence error, since the check
  for a key that is present comes first. The builder of \<open>attr('x')\<close> has its kinds in
  canonical order, and one call of \<open>class\<close> on it throws the order error.
\<close>

theorem C4_counterexample:
  "andThen (andThen (css_id ''a'') (Builder_class ''b'')) (Builder_id ''c'') =
     Throws OccurError
       \<lparr>selectors = [(''id'', Str ''#a''), (''class'', Arr [''.b''])], combineStorage = []\<rparr> \<and>
   css_attr ''x'' =
     Returns \<lparr>selectors = [(''attribute'', Arr [''[x]''])], combineStorage = []\<rparr> \<and>
   Builder_isValidOrder \<lparr>selectors = [(''attribute'', Arr [''[x]''])], combineStorage = []\<rparr> \<and>
   callEach Builder_class [''c'']
       \<lparr>selectors = [(''attribute'', Arr [''[x]''])], combineStorage = []\<rparr> =
     Throws OrderError
       \<lparr>selectors = [(''attribute'', Arr [''[x]'']), (''class'', Arr [''.c''])],
        combineStorage = []\<rparr>"
  by (simp add: run_defs)

text \<open>
  C4, as the code has it. On a builder that holds \<open>class\<close> and no \<open>id\<close>, the call of
  \<open>id\<close> itself throws the order error, with the id already stored. On a builder that
  holds \<open>id\<close>, the call of \<open>id\<close> throws the occurrence error instead. On a builder whose
  kinds are in canonical order and which either holds an array under \<open>class\<close> or holds
  none of \<open>class\<close>, \<open>attribute\<close>, \<open>pseudoClass\<close> and \<open>pseudoElement\<close>, any number of
  calls of \<open>class\<close> in a row return without an error.
\<close>

theorem C4_id_after_class_and_repeated_class:
  "(''class'' \<in> set (Map_keys (selectors this)) \<and> ''id'' \<notin> set (Map_keys (selectors this)) \<longrightarrow>
      Builder_id v this =
        Throws OrderError (this\<lparr>selectors := selectors this @ [(''id'', Str (''#'' @ v))]\<rparr>)) \<and>
   (''id'' \<in> set (Map_keys (selectors this)) \<longrightarrow>
      Builder_id v this = Throws OccurError this) \<and>
   (Builder_isValidOrder this \<and>
      ((\<exists>xs. Map_get (selectors this) ''class'' = Some (Arr xs)) \<or>
       ''class'' \<notin> set (Map_keys (selectors this)) \<and>
       ''attribute'' \<notin> set (Map_keys (selectors this)) \<and>
       ''pseudoClass'' \<notin> set (Map_keys (selectors this)) \<and>
       ''pseudoElement'' \<notin> set (Map_keys (selectors this))) \<longrightarrow>
      (\<exists>b'. callEach Builder_class vs this = Returns b'))"
proof (intro conjI impI)
  assume "''class'' \<in> set (Map_keys (selectors this)) \<and> ''id'' \<notin> set (Map_keys (selectors this))"
  then have c: "''class'' \<in> set (Map_keys (selectors this))"
    and i: "''id'' \<notin> set (Map_keys (selectors this))" by simp_all
  from invalid_id_after_class [OF c i]
  show "Builder_id v this =
      Throws OrderError (this\<lparr>selectors := selectors this @ [(''id'', Str (''#'' @ v))]\<rparr>)"
    by (simp add: Builder_id_def setOnce_absent [OF i] checkOrder_def)
next
  assume "''id'' \<in> set (Map_keys (selectors this))"
  then show "Builder_id v this = Throws OccurError this"
    by (simp add: Builder_id_def setOnce_def Map_has_iff)
next
  assume a: "Builder_isValidOrder this \<and>
      ((\<exists>xs. Map_get (selectors this) ''class'' = Some (Arr xs)) \<or>
       ''class'' \<notin> set (Map_keys (selectors this)) \<and>
       ''attribute'' \<notin> set (Map_keys (selectors this)) \<and>
       ''pseudoClass'' \<notin> set (Map_keys (selectors this)) \<and>
       ''pseudoElement'' \<notin> set (Map_keys (selectors this)))"
  then have valid: "Builder_isValidOrder this" by simp
  have fn: "Builder_class = (\<lambda>v. pushTo ''class'' (''.'' @ v))"
    by (simp add: fun_eq_iff Builder_class_def)
  from a consider
    (present) xs where "Map_get (selectors this) ''class'' = Some (Arr xs)"
  | (absent) "''class'' \<notin> set (Map_keys (selectors this))"
      "''attribute'' \<notin> set (Map_keys (selectors this))"
      "''pseudoClass'' \<notin> set (Map_keys (selectors this))"
      "''pseudoElement'' \<notin> set (Map_keys (selectors this))"
    by blast
  then show "\<exists>b'. callEach Builder_class vs this = Returns b'"
  proof cases
    case present
    from callEach_pushTo_returns [OF valid present] show ?thesis unfolding fn .
  next
    case absent
    show ?thesis
    proof (cases vs)
      case Nil
      then show ?thesis by simp
    next
      case (Cons w ws)
      let ?b1 = "this\<lparr>selectors := selectors this @ [(''class'', Arr [''.'' @ w])]\<rparr>"
      have v1: "Builder_isValidOrder ?b1" using valid absent by (rule valid_append_class)
      have g: "Map_get (selectors ?b1) ''class'' = Some (Arr [''.'' @ w])"
        using absent(1) by (simp add: Map_get_split)
      from callEach_pushTo_returns [OF v1 g] obtain b'
        where "callEach (\<lambda>v. pushTo ''class'' (''.'' @ v)) ws ?b1 = Returns b'" by blast
      with v1 show ?thesis
        unfolding fn Cons by (simp add: pushTo_absent [OF absent(1)] checkOrder_def)
    qed
  qed
qed

theorem C4_id_after_class_and_repeated_class_witness:
  "(''class'' \<in> set (Map_keys [(''class'', Arr [''.b''])]) \<and>
    ''id'' \<notin> set (Map_keys [(''class'', Arr [''.b''])])) \<and>
   Builder_isValidOrder \<lparr>selectors = [(''class'', Arr [''.b''])], combineStorage = []\<rparr> \<and>
   Map_get [(''class'', Arr [''.b''])] ''class'' = Some (Arr [''.b'']) \<and>
   Builder_id ''c'' \<lparr>selectors = [(''class'', Arr [''.b''])], combineStorage = []\<rparr> =
     Throws OrderError
       \<lparr>selectors = [(''class'', Arr [''.b'']), (''id'', Str ''#c'')], combineStorage = []\<rparr> \<and>
   (\<exists>b'. callEach Builder_class [''x'', ''y'', ''x'']
       \<lparr>selectors = [(''class'', Arr [''.b''])], combineStorage = []\<rparr> = Returns b') \<and>
   ''id'' \<in> set (Map_keys [(''id'', Str ''#a''), (''class'', Arr [''.b''])]) \<and>
   Builder_id ''c''
       \<lparr>selectors = [(''id'', Str ''#a''), (''class'', Arr [''.b''])], combineStorage = []\<rparr> =
     Throws OccurError
       \<lparr>selectors = [(''id'', Str ''#a''), (''class'', Arr [''.b''])], combineStorage = []\<rparr>"
proof -
  let ?b = "\<lparr>selectors = [(''class'', Arr [''.b''])], combineStorage = []\<rparr>"
  let ?d = "\<lparr>selectors = [(''id'', Str ''#a''), (''class'', Arr [''.b''])], combineStorage = []\<rparr>"
  have h1: "''class'' \<in> set (Map_keys (selectors ?b)) \<and> ''id'' \<notin> set (Map_keys (selectors ?b))"
    by (simp add: Map_keys_def)
  have h2: "Builder_isValidOrder ?b" by (simp add: isValidOrder_iff Map_keys_def defaultOrder_def)
  have h3: "Map_get (selectors ?b) ''class'' = Some (Arr [''.b''])" by simp
  have h4: "''id'' \<in> set (Map_keys (selectors ?d))" by (simp add: Map_keys_def)
  from C4_id_after_class_and_repeated_class [of ?d "''c''" "[]"] h4
  have dup: "Builder_id ''c'' ?d = Throws OccurError ?d" by blast
  from C4_id_after_class_and_repeated_class [of ?b "''c''" "[''x'', ''y'', ''x'']"] h1 h2 h3 h4 dup
  show ?thesis by simp
qed

subsection \<open>Combinations\<close>

lemma stringify_fragments:
  "combineStorage b = [] \<Longrightarrow> Builder_stringify b = join (flat (Map_values (selectors b)))"
  by (simp add: Builder_stringify_def)

lemma stringify_combined:
  "Builder_stringify (css_combine A c B) =
     join (flat (Map_values (selectors A))) @ '' '' @ c @ '' '' @
     join (flat (Map_values (selectors B))) @ join (flat (combineStorage B))"
  by (simp add: Builder_stringify_def css_combine_def Builder_combine_def new_Builder_def
      join_def flat_def)

lemma selectors_css_combine: "selectors (css_combine A c B) = []"
  by (simp add: css_combine_def Builder_combine_def new_Builder_def)

lemma combineStorage_css_combine:
  "combineStorage (css_combine A c B) =
     Map_values (selectors A) @ [Str ('' '' @ c @ '' '')] @ Map_values (selectors B) @
     combineStorage B"
  by (simp add: css_combine_def Builder_combine_def new_Builder_def)

text \<open>
  C5. For builders \<open>A\<close>, \<open>B\<close> and \<open>C\<close> with an empty \<open>combineStorage\<close>,
  \<open>combine(A, c1, combine(B, c2, C)).stringify()\<close> is the string of \<open>A\<close>, the combinator
  \<open>c1\<close> between two spaces, the string of \<open>B\<close>, the combinator \<open>c2\<close> between two spaces
  and the string of \<open>C\<close>; \<open>c1 = '+'\<close> and \<open>c2 = '~'\<close> give the tokens \<open>' + '\<close> and \<open>' ~ '\<close>.
  The example of the docstring, three combinations deep, renders with three spaces
  between \<open>tr:nth-of-type(even)\<close> and \<open>td:nth-of-type(even)\<close>.
\<close>

theorem C5_nested_combine_stringify:
  \<open>(combineStorage A = [] \<and> combineStorage B = [] \<and> combineStorage C = [] \<longrightarrow>
      Builder_stringify (css_combine A c1 (css_combine B c2 C)) =
        Builder_stringify A @ '' '' @ c1 @ '' '' @ Builder_stringify B @
        '' '' @ c2 @ '' '' @ Builder_stringify C) \<and>
   (\<exists>a b c d.
      andThen (andThen (andThen (css_element ''div'') (Builder_id ''main''))
        (Builder_class ''container'')) (Builder_class ''draggable'') = Returns a \<and>
      andThen (css_element ''table'') (Builder_id ''data'') = Returns b \<and>
      andThen (css_element ''tr'') (Builder_pseudoClass ''nth-of-type(even)'') = Returns c \<and>
      andThen (css_element ''td'') (Builder_pseudoClass ''nth-of-type(even)'') = Returns d \<and>
      Builder_stringify (css_combine a ''+'' (css_combine b ''~'' (css_combine c '' '' d))) =
        ''div#main.container.draggable + table#data ~ tr:nth-of-type(even)   td:nth-of-type(even)'')\<close>
proof (intro conjI impI)
  assume "combineStorage A = [] \<and> combineStorage B = [] \<and> combineStorage C = []"
  then show "Builder_stringify (css_combine A c1 (css_combine B c2 C)) =
        Builder_stringify A @ '' '' @ c1 @ '' '' @ Builder_stringify B @
        '' '' @ c2 @ '' '' @ Builder_stringify C"
    by (simp add: stringify_combined selectors_css_combine combineStorage_css_combine
        stringify_fragments Map_values_def join_def flat_def)
next
  show "\<exists>a b c d.
      andThen (andThen (andThen (css_element ''div'') (Builder_id ''main''))
        (Builder_class ''container'')) (Builder_class ''draggable'') = Returns a \<and>
      andThen (css_element ''table'') (Builder_id ''data'') = Returns b \<and>
      andThen (css_element ''tr'') (Builder_pseudoClass ''nth-of-type(even)'') = Returns c \<and>
      andThen (css_element ''td'') (Builder_pseudoClass ''nth-of-type(even)'') = Returns d \<and>
      Builder_stringify (css_combine a ''+'' (css_combine b ''~'' (css_combine c '' '' d))) =
        ''div#main.container.draggable + table#data ~ tr:nth-of-type(even)   td:nth-of-type(even)''"
    by (simp add: run_defs stringify_combined selectors_css_combine combineStorage_css_combine
        Map_values_def join_def flat_def)
qed

theorem C5_nested_combine_stringify_witness:
  "(combineStorage \<lparr>selectors = [(''element'', Str ''div''), (''id'', Str ''#main'')],
       combineStorage = []\<rparr> = [] \<and>
    combineStorage \<lparr>selectors = [(''element'', Str ''p'')], combineStorage = []\<rparr> = [] \<and>
    combineStorage \<lparr>selectors = [(''class'', Arr [''.x'', ''.y''])], combineStorage = []\<rparr> = []) \<and>
   Builder_stringify
     (css_combine \<lparr>selectors = [(''element'', Str ''div''), (''id'', Str ''#main'')],
          combineStorage = []\<rparr> ''+''
        (css_combine \<lparr>selectors = [(''element'', Str ''p'')], combineStorage = []\<rparr> ''~''
           \<lparr>selectors = [(''class'', Arr [''.x'', ''.y''])], combineStorage = []\<rparr>)) =
     ''div#main + p ~ .x.y''"
proof -
  let ?A = "\<lparr>selectors = [(''element'', Str ''div''), (''id'', Str ''#main'')],
       combineStorage = []\<rparr>"
  let ?B = "\<lparr>selectors = [(''element'', Str ''p'')], combineStorage = []\<rparr>"
  let ?C = "\<lparr>selectors = [(''class'', Arr [''.x'', ''.y''])], combineStorage = []\<rparr>"
  have h: "combineStorage ?A = [] \<and> combineStorage ?B = [] \<and> combineStorage ?C = []" by simp
  from C5_nested_combine_stringify [of ?A ?B ?C "''+''" "''~''"] h
  have "Builder_stringify (css_combine ?A ''+'' (css_combine ?B ''~'' ?C)) =
        Builder_stringify ?A @ '' '' @ ''+'' @ '' '' @ Builder_stringify ?B @
        '' '' @ ''~'' @ '' '' @ Builder_stringify ?C" by blast
  then show ?thesis
    by (simp add: Builder_stringify_def Map_values_def join_def flat_def)
qed

text \<open>
  C6. \<open>combine\<close> appends the fragment values of the first selector, the combinator
  between two spaces, the fragment values of the second selector and the
  \<open>combineStorage\<close> of the second selector. The \<open>combineStorage\<close> of the first selector
  is not read: replacing it changes nothing. A first selector that is itself the
  result of \<open>combine\<close> at the facade has no fragments, so nothing of it reaches the
  result.
\<close>

theorem C6_combine_ignores_left_combineStorage:
  "combineStorage (Builder_combine A c B this) =
     combineStorage this @ Map_values (selectors A) @ [Str ('' '' @ c @ '' '')] @
     Map_values (selectors B) @ combineStorage B \<and>
   combineStorage (css_combine A c B) =
     Map_values (selectors A) @ [Str ('' '' @ c @ '' '')] @ Map_values (selectors B) @
     combineStorage B \<and>
   Builder_combine (A\<lparr>combineStorage := cs\<rparr>) c B this = Builder_combine A c B this \<and>
   css_combine (A\<lparr>combineStorage := cs\<rparr>) c B = css_combine A c B \<and>
   combineStorage (css_combine (css_combine X c1 Y) c B) =
     [Str ('' '' @ c @ '' '')] @ Map_values (selectors B) @ combineStorage B \<and>
   Builder_stringify (css_combine (css_combine X c1 Y) c B) =
     '' '' @ c @ '' '' @ join (flat (Map_values (selectors B))) @ join (flat (combineStorage B))"
proof (intro conjI)
  show "combineStorage (Builder_combine A c B this) =
     combineStorage this @ Map_values (selectors A) @ [Str ('' '' @ c @ '' '')] @
     Map_values (selectors B) @ combineStorage B"
    by (simp add: Builder_combine_def)
  show "combineStorage (css_combine A c B) =
     Map_values (selectors A) @ [Str ('' '' @ c @ '' '')] @ Map_values (selectors B) @
     combineStorage B"
    by (rule combineStorage_css_combine)
  show "Builder_combine (A\<lparr>combineStorage := cs\<rparr>) c B this = Builder_combine A c B this"
    by (simp add: Builder_combine_def)
  show "css_combine (A\<lparr>combineStorage := cs\<rparr>) c B = css_combine A c B"
    by (simp add: css_combine_def Builder_combine_def)
  show "combineStorage (css_combine (css_combine X c1 Y) c B) =
     [Str ('' '' @ c @ '' '')] @ Map_values (selectors B) @ combineStorage B"
    by (simp add: combineStorage_css_combine selectors_css_combine Map_values_def)
  show "Builder_stringify (css_combine (css_combine X c1 Y) c B) =
     '' '' @ c @ '' '' @ join (flat (Map_values (selectors B))) @ join (flat (combineStorage B))"
    by (simp add: stringify_combined selectors_css_combine Map_values_def join_def flat_def)
qed

subsection \<open>\<open>stringify\<close> does not change the builder\<close>

lemma deref_append: "deref h a = Some obj \<Longrightarrow> deref (h @ ext) a = Some obj"
  by (auto simp: deref_def nth_append split: if_splits)

lemma deref_new: "deref (h @ [obj]) (length h) = Some obj"
  by (simp add: deref_def)

lemma absVal_append: "absVal h e = Some v \<Longrightarrow> absVal (h @ ext) e = Some v"
  by (auto simp: absVal_def deref_append split: hval.splits option.splits hobj.splits)

lemma absVals_append: "absVals h es = Some vs \<Longrightarrow> absVals (h @ ext) es = Some vs"
  by (induction es arbitrary: vs) (auto simp: absVal_append split: option.splits)

lemma absEntries_append: "absEntries h m = Some m' \<Longrightarrow> absEntries (h @ ext) m = Some m'"
  by (induction m arbitrary: m') (auto simp: absVal_append split: option.splits)

lemma absBuilder_append:
  assumes "absBuilder h this = Some b"
  shows "absBuilder (h @ ext) this = Some b"
proof -
  from assms obtain sel cs m xs m' xs' where
    d: "deref h this = Some (HBuilder sel cs)" "deref h sel = Some (HMap m)"
       "deref h cs = Some (HArray xs)"
    and a: "absEntries h m = Some m'" "absVals h xs = Some xs'"
    and b: "b = \<lparr>selectors = m', combineStorage = xs'\<rparr>"
    by (auto simp: absBuilder_def split: option.splits hobj.splits)
  show ?thesis
    by (simp add: absBuilder_def deref_append [OF d(1)] deref_append [OF d(2)]
        deref_append [OF d(3)] absEntries_append [OF a(1)] absVals_append [OF a(2)] b)
qed

lemma strings_of_append:
  "strings_of xs = Some a \<Longrightarrow> strings_of ys = Some c \<Longrightarrow> strings_of (xs @ ys) = Some (a @ c)"
  by (induction xs arbitrary: a) (auto split: hval.splits)

lemma strings_of_flat1: "absVal h e = Some v \<Longrightarrow> strings_of (heap_flat1 h e) = Some (flat1 v)"
  by (auto simp: absVal_def heap_flat1_def split: hval.splits option.splits hobj.splits)

lemma strings_of_flat:
  "absVals h xs = Some vs \<Longrightarrow> strings_of (concat (map (heap_flat1 h) xs)) = Some (flat vs)"
proof (induction xs arbitrary: vs)
  case Nil
  then show ?case by (simp add: flat_def)
next
  case (Cons e es)
  from Cons.prems obtain v ws where v: "absVal h e = Some v" and ws: "absVals h es = Some ws"
    and vs: "vs = v # ws" by (auto split: option.splits)
  from strings_of_append [OF strings_of_flat1 [OF v] Cons.IH [OF ws]] vs
  show ?case by (simp add: flat_def)
qed

lemma absVals_length: "absVals h xs = Some vs \<Longrightarrow> length vs = length xs"
  by (induction xs arbitrary: vs) (auto split: option.splits)

lemma absVals_values: "absEntries h m = Some m' \<Longrightarrow> absVals h (map snd m) = Some (Map_values m')"
  by (induction m arbitrary: m') (auto simp: Map_values_def split: option.splits)

lemma flat_join_on_heap:
  assumes "deref h a = Some (HArray xs)" and "absVals h xs = Some vs"
  shows "\<exists>ext. (case heap_flat a h of
            None \<Rightarrow> None
          | Some (f, h1) \<Rightarrow> map_option (\<lambda>s. (s, h1)) (heap_join f h1)) =
         Some (join (flat vs), h @ ext)"
proof -
  let ?new = "HArray (concat (map (heap_flat1 h) xs))"
  have "heap_flat a h = Some (length h, h @ [?new])"
    using assms(1) by (simp add: heap_flat_def alloc_def)
  moreover have "heap_join (length h) (h @ [?new]) = Some (join (flat vs))"
    using strings_of_flat [OF assms(2)] by (simp add: heap_join_def deref_new join_def)
  ultimately show ?thesis by simp
qed

lemma stringify_on_heap_refines:
  assumes "absBuilder h this = Some b"
  shows "\<exists>ext. stringify_on_heap this h = Some (Builder_stringify b, h @ ext)"
proof -
  from assms obtain sel cs m xs m' xs' where
    d: "deref h this = Some (HBuilder sel cs)" "deref h sel = Some (HMap m)"
       "deref h cs = Some (HArray xs)"
    and a: "absEntries h m = Some m'" "absVals h xs = Some xs'"
    and b: "b = \<lparr>selectors = m', combineStorage = xs'\<rparr>"
    by (auto simp: absBuilder_def split: option.splits hobj.splits)
  have len: "heap_length cs h = Some (length xs)" using d(3) by (simp add: heap_length_def)
  have same_len: "length xs' = length xs" using a(2) by (rule absVals_length)
  show ?thesis
  proof (cases "length xs > 0")
    case True
    from flat_join_on_heap [OF d(3) a(2)] obtain ext where
      "(case heap_flat cs h of None \<Rightarrow> None
        | Some (f, h1) \<Rightarrow> map_option (\<lambda>s. (s, h1)) (heap_join f h1)) =
       Some (join (flat xs'), h @ ext)" by blast
    with True same_len show ?thesis
      by (simp add: stringify_on_heap_def d(1) len b Builder_stringify_def)
  next
    case False
    let ?h1 = "h @ [HArray (map snd m)]"
    have vals: "heap_values sel h = Some (length h, ?h1)"
      using d(2) by (simp add: heap_values_def alloc_def)
    have d1: "deref ?h1 (length h) = Some (HArray (map snd m))" by (rule deref_new)
    have a1: "absVals ?h1 (map snd m) = Some (Map_values m')"
      using absVals_values [OF absEntries_append [OF a(1)]] .
    from flat_join_on_heap [OF d1 a1] obtain ext where
      "(case heap_flat (length h) ?h1 of None \<Rightarrow> None
        | Some (f, h2) \<Rightarrow> map_option (\<lambda>s. (s, h2)) (heap_join f h2)) =
       Some (join (flat (Map_values m')), ?h1 @ ext)" by blast
    with False same_len have
      "stringify_on_heap this h = Some (Builder_stringify b, h @ (HArray (map snd m) # ext))"
      by (simp add: stringify_on_heap_def d(1) len vals b Builder_stringify_def)
    then show ?thesis by blast
  qed
qed

text \<open>
  C9. Let the objects reachable from \<open>this\<close> stand for the builder \<open>b\<close>. Then a call of
  \<open>stringify\<close> returns the string of \<open>b\<close>; every object that was on the heap before
  the call is the same after it, so the builder, its fragments and its combined
  segments are as they were (the call only adds the arrays that the spread and
  \<open>flat()\<close> build); and a second call right after the first returns the same string.
\<close>

theorem C9_stringify_pure_idempotent:
  "absBuilder h this = Some b \<longrightarrow>
     (\<exists>h'. stringify_on_heap this h = Some (Builder_stringify b, h') \<and>
        take (length h) h' = h \<and>
        absBuilder h' this = Some b \<and>
        (\<exists>h''. stringify_on_heap this h' = Some (Builder_stringify b, h'')))"
proof
  assume abs: "absBuilder h this = Some b"
  from stringify_on_heap_refines [OF abs] obtain ext where
    run1: "stringify_on_heap this h = Some (Builder_stringify b, h @ ext)" by blast
  have abs': "absBuilder (h @ ext) this = Some b" using abs by (rule absBuilder_append)
  from stringify_on_heap_refines [OF abs'] obtain ext' where
    run2: "stringify_on_heap this (h @ ext) = Some (Builder_stringify b, (h @ ext) @ ext')"
    by blast
  from run1 abs' run2 show
    "\<exists>h'. stringify_on_heap this h = Some (Builder_stringify b, h') \<and>
        take (length h) h' = h \<and>
        absBuilder h' this = Some b \<and>
        (\<exists>h''. stringify_on_heap this h' = Some (Builder_stringify b, h''))"
    by (intro exI [of _ "h @ ext"]) simp
qed

theorem C9_stringify_pure_idempotent_witness:
  "absBuilder
     [HBuilder 1 2, HMap [(''id'', HStr ''#main''), (''class'', HRef 3)], HArray [],
      HArray [HStr ''.container'', HStr ''.editable'']] 0 =
     Some \<lparr>selectors = [(''id'', Str ''#main''), (''class'', Arr [''.container'', ''.editable''])],
       combineStorage = []\<rparr> \<and>
   (\<exists>h'. stringify_on_heap 0
        [HBuilder 1 2, HMap [(''id'', HStr ''#main''), (''class'', HRef 3)], HArray [],
         HArray [HStr ''.container'', HStr ''.editable'']] =
        Some (''#main.container.editable'', h') \<and>
      take 4 h' =
        [HBuilder 1 2, HMap [(''id'', HStr ''#main''), (''class'', HRef 3)], HArray [],
         HArray [HStr ''.container'', HStr ''.editable'']] \<and>
      (\<exists>h''. stringify_on_heap 0 h' = Some (''#main.container.editable'', h''))) \<and>
   absBuilder
     [HBuilder 1 2, HMap [], HArray [HStr ''div'', HRef 3, HStr '' + '', HStr ''p''],
      HArray [HStr ''.a'', HStr ''.b'']] 0 =
     Some \<lparr>selectors = [],
       combineStorage = [Str ''div'', Arr [''.a'', ''.b''], Str '' + '', Str ''p'']\<rparr> \<and>
   (\<exists>h'. stringify_on_heap 0
        [HBuilder 1 2, HMap [], HArray [HStr ''div'', HRef 3, HStr '' + '', HStr ''p''],
         HArray [HStr ''.a'', HStr ''.b'']] =
        Some (''div.a.b + p'', h') \<and>
      take 4 h' =
        [HBuilder 1 2, HMap [], HArray [HStr ''div'', HRef 3, HStr '' + '', HStr ''p''],
         HArray [HStr ''.a'', HStr ''.b'']] \<and>
      (\<exists>h''. stringify_on_heap 0 h' = Some (''div.a.b + p'', h'')))"
proof -
  let ?g = "[HBuilder 1 2, HMap [], HArray [HStr ''div'', HRef 3, HStr '' + '', HStr ''p''],
      HArray [HStr ''.a'', HStr ''.b'']]"
  let ?c = "\<lparr>selectors = [],
       combineStorage = [Str ''div'', Arr [''.a'', ''.b''], Str '' + '', Str ''p'']\<rparr>"
  have abs_g: "absBuilder ?g 0 = Some ?c"
    by (simp add: absBuilder_def deref_def absVal_def)
  have str_g: "Builder_stringify ?c = ''div.a.b + p''"
    by (simp add: Builder_stringify_def join_def flat_def)
  have len_g: "length ?g = 4" by simp
  from C9_stringify_pure_idempotent [of ?g 0 ?c] abs_g obtain g' g'' where
    run_g: "stringify_on_heap 0 ?g = Some (Builder_stringify ?c, g')"
    and old_g: "take (length ?g) g' = ?g"
    and again_g: "stringify_on_heap 0 g' = Some (Builder_stringify ?c, g'')"
    by blast
  from old_g have "take 4 g' = ?g" by (simp only: len_g)
  with run_g again_g have second:
    "\<exists>h'. stringify_on_heap 0 ?g = Some (''div.a.b + p'', h') \<and> take 4 h' = ?g \<and>
       (\<exists>h''. stringify_on_heap 0 h' = Some (''div.a.b + p'', h''))"
    unfolding str_g by blast
  let ?h = "[HBuilder 1 2, HMap [(''id'', HStr ''#main''), (''class'', HRef 3)], HArray [],
      HArray [HStr ''.container'', HStr ''.editable'']]"
  let ?b = "\<lparr>selectors = [(''id'', Str ''#main''), (''class'', Arr [''.container'', ''.editable''])],
       combineStorage = []\<rparr>"
  have abs: "absBuilder ?h 0 = Some ?b"
    by (simp add: absBuilder_def deref_def absVal_def)
  have str: "Builder_stringify ?b = ''#main.container.editable''"
    by (simp add: Builder_stringify_def Map_values_def join_def flat_def)
  have len: "length ?h = 4" by simp
  from C9_stringify_pure_idempotent [of ?h 0 ?b] abs obtain h' h'' where
    run: "stringify_on_heap 0 ?h = Some (Builder_stringify ?b, h')"
    and old: "take (length ?h) h' = ?h"
    and again: "stringify_on_heap 0 h' = Some (Builder_stringify ?b, h'')"
    by blast
  from old have "take 4 h' = ?h" by (simp only: len)
  with run again have first:
    "\<exists>h'. stringify_on_heap 0 ?h = Some (''#main.container.editable'', h') \<and>
       take 4 h' = ?h \<and>
       (\<exists>h''. stringify_on_heap 0 h' = Some (''#main.container.editable'', h''))"
    unfolding str by blast
  from abs first abs_g second show ?thesis by (intro conjI)
qed

subsection \<open>The state after the occurrence error\<close>

text \<open>
  C10. When \<open>element\<close>, \<open>id\<close> or \<open>pseudoElement\<close> throws the occurrence error, the
  builder is in the state it had before the call.
\<close>

theorem C10_duplicate_error_leaves_state:
  "(Builder_element v this = Throws OccurError b' \<longrightarrow> b' = this) \<and>
   (Builder_id v this = Throws OccurError b' \<longrightarrow> b' = this) \<and>
   (Builder_pseudoElement v this = Throws OccurError b' \<longrightarrow> b' = this)"
  unfolding method_defs using setOnce_OccurError_state by blast

theorem C10_duplicate_error_leaves_state_witness:
  "Builder_element ''a''
     \<lparr>selectors = [(''element'', Str ''div''), (''id'', Str ''#main''),
        (''pseudoElement'', Str ''::before'')], combineStorage = []\<rparr> =
   Throws OccurError
     \<lparr>selectors = [(''element'', Str ''div''), (''id'', Str ''#main''),
        (''pseudoElement'', Str ''::before'')], combineStorage = []\<rparr> \<and>
   Builder_id ''a''
     \<lparr>selectors = [(''element'', Str ''div''), (''id'', Str ''#main''),
        (''pseudoElement'', Str ''::before'')], combineStorage = []\<rparr> =
   Throws OccurError
     \<lparr>selectors = [(''element'', Str ''div''), (''id'', Str ''#main''),
        (''pseudoElement'', Str ''::before'')], combineStorage = []\<rparr> \<and>
   Builder_pseudoElement ''a''
     \<lparr>selectors = [(''element'', Str ''div''), (''id'', Str ''#main''),
        (''pseudoElement'', Str ''::before'')], combineStorage = []\<rparr> =
   Throws OccurError
     \<lparr>selectors = [(''element'', Str ''div''), (''id'', Str ''#main''),
        (''pseudoElement'', Str ''::before'')], combineStorage = []\<rparr>"
proof -
  let ?b = "\<lparr>selectors = [(''element'', Str ''div''), (''id'', Str ''#main''),
        (''pseudoElement'', Str ''::before'')], combineStorage = []\<rparr>"
  have h: "Builder_element ''a'' ?b = Throws OccurError ?b"
    "Builder_id ''a'' ?b = Throws OccurError ?b"
    "Builder_pseudoElement ''a'' ?b = Throws OccurError ?b"
    by (simp_all add: method_defs setOnce_def)
  from C10_duplicate_error_leaves_state [of "''a''" ?b ?b] h show ?thesis by simp
qed

subsection \<open>The state after the order error\<close>

lemma setOnce_OrderError:
  assumes "setOnce k t b = Throws OrderError b'"
  shows "b' = b\<lparr>selectors := selectors b @ [(k, Str t)]\<rparr> \<and> \<not> Builder_isValidOrder b' \<and>
         Map_get (selectors b') k = Some (Str t)"
proof -
  have absent: "k \<notin> set (Map_keys (selectors b))"
    using assms by (auto simp: setOnce_def Map_has_iff split: if_splits)
  from assms have "checkOrder (b\<lparr>selectors := selectors b @ [(k, Str t)]\<rparr>) = Throws OrderError b'"
    by (simp add: setOnce_absent [OF absent])
  then have "b' = b\<lparr>selectors := selectors b @ [(k, Str t)]\<rparr> \<and> \<not> Builder_isValidOrder b'"
    by (auto simp: checkOrder_Throws)
  moreover have "Map_get (selectors b @ [(k, Str t)]) k = Some (Str t)"
    using absent Map_get_split [of k "selectors b" "Str t" "[]"] by simp
  ultimately show ?thesis by auto
qed

lemma pushTo_OrderError:
  assumes "pushTo k t b = Throws OrderError b'"
  shows "\<not> Builder_isValidOrder b' \<and> (\<exists>xs. Map_get (selectors b') k = Some (Arr (xs @ [t])))"
proof (cases "k \<in> set (Map_keys (selectors b))")
  case False
  with assms have "checkOrder (b\<lparr>selectors := selectors b @ [(k, Arr [t])]\<rparr>) = Throws OrderError b'"
    by (simp add: pushTo_absent)
  then have "b' = b\<lparr>selectors := selectors b @ [(k, Arr [t])]\<rparr> \<and> \<not> Builder_isValidOrder b'"
    by (auto simp: checkOrder_Throws)
  moreover have "Map_get (selectors b @ [(k, Arr [t])]) k = Some (Arr ([] @ [t]))"
    using False Map_get_split [of k "selectors b" "Arr [t]" "[]"] by simp
  ultimately show ?thesis by auto
next
  case True
  then have has: "Map_has (selectors b) k" by (simp add: Map_has_iff)
  show ?thesis
  proof (cases "Map_get (selectors b) k")
    case None
    with assms has show ?thesis by (simp add: pushTo_def)
  next
    case (Some x)
    show ?thesis
    proof (cases x)
      case (Str s)
      with assms has Some show ?thesis by (simp add: pushTo_def)
    next
      case (Arr old)
      with assms has Some
      have "checkOrder (b\<lparr>selectors := Map_set (selectors b) k (Arr (old @ [t]))\<rparr>) =
              Throws OrderError b'"
        by (simp add: pushTo_def)
      then have "b' = b\<lparr>selectors := Map_set (selectors b) k (Arr (old @ [t]))\<rparr> \<and>
          \<not> Builder_isValidOrder b'"
        by (auto simp: checkOrder_Throws)
      then show ?thesis by (auto simp: Map_get_set)
    qed
  qed
qed

text \<open>
  C8. When one of the six fragment methods throws the order error, the builder already
  holds the fragment of that call under the key of its kind (as the stored string, or
  as the last element of the stored array), and its keys are not in canonical order.
\<close>

theorem C8_order_error_after_store:
  "(Builder_element v this = Throws OrderError b' \<longrightarrow>
      Map_get (selectors b') ''element'' = Some (Str v) \<and> \<not> Builder_isValidOrder b') \<and>
   (Builder_id v this = Throws OrderError b' \<longrightarrow>
      Map_get (selectors b') ''id'' = Some (Str (''#'' @ v)) \<and> \<not> Builder_isValidOrder b') \<and>
   (Builder_class v this = Throws OrderError b' \<longrightarrow>
      (\<exists>xs. Map_get (selectors b') ''class'' = Some (Arr (xs @ [''.'' @ v]))) \<and>
      \<not> Builder_isValidOrder b') \<and>
   (Builder_attr v this = Throws OrderError b' \<longrightarrow>
      (\<exists>xs. Map_get (selectors b') ''attribute'' = Some (Arr (xs @ [''['' @ v @ '']'']))) \<and>
      \<not> Builder_isValidOrder b') \<and>
   (Builder_pseudoClass v this = Throws OrderError b' \<longrightarrow>
      (\<exists>xs. Map_get (selectors b') ''pseudoClass'' = Some (Arr (xs @ ['':'' @ v]))) \<and>
      \<not> Builder_isValidOrder b') \<and>
   (Builder_pseudoElement v this = Throws OrderError b' \<longrightarrow>
      Map_get (selectors b') ''pseudoElement'' = Some (Str (''::'' @ v)) \<and>
      \<not> Builder_isValidOrder b')"
  unfolding method_defs
  using setOnce_OrderError [of _ _ this b'] pushTo_OrderError [of _ _ this b'] by blast

theorem C8_order_error_after_store_witness:
  "(Builder_element ''e'' \<lparr>selectors = [(''id'', Str ''#a'')], combineStorage = []\<rparr> =
      Throws OrderError
        \<lparr>selectors = [(''id'', Str ''#a''), (''element'', Str ''e'')], combineStorage = []\<rparr> \<and>
    Map_get [(''id'', Str ''#a''), (''element'', Str ''e'')] ''element'' = Some (Str ''e'')) \<and>
   (Builder_id ''c'' \<lparr>selectors = [(''class'', Arr [''.b''])], combineStorage = []\<rparr> =
      Throws OrderError
        \<lparr>selectors = [(''class'', Arr [''.b'']), (''id'', Str ''#c'')], combineStorage = []\<rparr> \<and>
    Map_get [(''class'', Arr [''.b'']), (''id'', Str ''#c'')] ''id'' = Some (Str ''#c'')) \<and>
   (Builder_class ''c'' \<lparr>selectors = [(''attribute'', Arr [''[x]''])], combineStorage = []\<rparr> =
      Throws OrderError
        \<lparr>selectors = [(''attribute'', Arr [''[x]'']), (''class'', Arr [''.c''])],
         combineStorage = []\<rparr> \<and>
    Map_get [(''attribute'', Arr [''[x]'']), (''class'', Arr [''.c''])] ''class'' =
      Some (Arr [''.c''])) \<and>
   (Builder_attr ''x'' \<lparr>selectors = [(''pseudoClass'', Arr ['':p''])], combineStorage = []\<rparr> =
      Throws OrderError
        \<lparr>selectors = [(''pseudoClass'', Arr ['':p'']), (''attribute'', Arr [''[x]''])],
         combineStorage = []\<rparr> \<and>
    Map_get [(''pseudoClass'', Arr ['':p'']), (''attribute'', Arr [''[x]''])] ''attribute'' =
      Some (Arr [''[x]''])) \<and>
   (Builder_pseudoClass ''p'' \<lparr>selectors = [(''pseudoElement'', Str ''::q'')], combineStorage = []\<rparr> =
      Throws OrderError
        \<lparr>selectors = [(''pseudoElement'', Str ''::q''), (''pseudoClass'', Arr ['':p''])],
         combineStorage = []\<rparr> \<and>
    Map_get [(''pseudoElement'', Str ''::q''), (''pseudoClass'', Arr ['':p''])] ''pseudoClass'' =
      Some (Arr ['':p''])) \<and>
   (Builder_pseudoElement ''q''
      \<lparr>selectors = [(''class'', Arr [''.b'']), (''id'', Str ''#c'')], combineStorage = []\<rparr> =
      Throws OrderError
        \<lparr>selectors = [(''class'', Arr [''.b'']), (''id'', Str ''#c''),
           (''pseudoElement'', Str ''::q'')], combineStorage = []\<rparr> \<and>
    Map_get [(''class'', Arr [''.b'']), (''id'', Str ''#c''), (''pseudoElement'', Str ''::q'')]
      ''pseudoElement'' = Some (Str ''::q''))"
proof -
  let ?e0 = "\<lparr>selectors = [(''id'', Str ''#a'')], combineStorage = []\<rparr>"
  let ?e1 = "\<lparr>selectors = [(''id'', Str ''#a''), (''element'', Str ''e'')], combineStorage = []\<rparr>"
  let ?i0 = "\<lparr>selectors = [(''class'', Arr [''.b''])], combineStorage = []\<rparr>"
  let ?i1 = "\<lparr>selectors = [(''class'', Arr [''.b'']), (''id'', Str ''#c'')], combineStorage = []\<rparr>"
  let ?c0 = "\<lparr>selectors = [(''attribute'', Arr [''[x]''])], combineStorage = []\<rparr>"
  let ?c1 = "\<lparr>selectors = [(''attribute'', Arr [''[x]'']), (''class'', Arr [''.c''])],
         combineStorage = []\<rparr>"
  let ?a0 = "\<lparr>selectors = [(''pseudoClass'', Arr ['':p''])], combineStorage = []\<rparr>"
  let ?a1 = "\<lparr>selectors = [(''pseudoClass'', Arr ['':p'']), (''attribute'', Arr [''[x]''])],
         combineStorage = []\<rparr>"
  let ?p0 = "\<lparr>selectors = [(''pseudoElement'', Str ''::q'')], combineStorage = []\<rparr>"
  let ?p1 = "\<lparr>selectors = [(''pseudoElement'', Str ''::q''), (''pseudoClass'', Arr ['':p''])],
         combineStorage = []\<rparr>"
  let ?q1 = "\<lparr>selectors = [(''class'', Arr [''.b'']), (''id'', Str ''#c''),
           (''pseudoElement'', Str ''::q'')], combineStorage = []\<rparr>"
  have e: "Builder_element ''e'' ?e0 = Throws OrderError ?e1" by (simp add: run_defs)
  have i: "Builder_id ''c'' ?i0 = Throws OrderError ?i1" by (simp add: run_defs)
  have c: "Builder_class ''c'' ?c0 = Throws OrderError ?c1" by (simp add: run_defs)
  have a: "Builder_attr ''x'' ?a0 = Throws OrderError ?a1" by (simp add: run_defs)
  have p: "Builder_pseudoClass ''p'' ?p0 = Throws OrderError ?p1" by (simp add: run_defs)
  have q: "Builder_pseudoElement ''q'' ?i1 = Throws OrderError ?q1" by (simp add: run_defs)
  from C8_order_error_after_store [of "''e''" ?e0 ?e1] e
  have "Map_get (selectors ?e1) ''element'' = Some (Str ''e'')" by blast
  moreover from C8_order_error_after_store [of "''c''" ?i0 ?i1] i
  have "Map_get (selectors ?i1) ''id'' = Some (Str (''#'' @ ''c''))" by blast
  moreover from C8_order_error_after_store [of "''c''" ?c0 ?c1] c
  have "\<exists>xs. Map_get (selectors ?c1) ''class'' = Some (Arr (xs @ [''.'' @ ''c'']))" by blast
  moreover from C8_order_error_after_store [of "''x''" ?a0 ?a1] a
  have "\<exists>xs. Map_get (selectors ?a1) ''attribute'' = Some (Arr (xs @ [''['' @ ''x'' @ '']'']))"
    by blast
  moreover from C8_order_error_after_store [of "''p''" ?p0 ?p1] p
  have "\<exists>xs. Map_get (selectors ?p1) ''pseudoClass'' = Some (Arr (xs @ ['':'' @ ''p'']))" by blast
  moreover from C8_order_error_after_store [of "''q''" ?i1 ?q1] q
  have "Map_get (selectors ?q1) ''pseudoElement'' = Some (Str (''::'' @ ''q''))" by blast
  ultimately show ?thesis using e i c a p q by simp
qed

subsection \<open>Repeated calls of \<open>class\<close>, \<open>attr\<close> and \<open>pseudoClass\<close>\<close>








end
